theory Spec2Isabelle
  imports Complex_Main "HOL-Library.Word" "HOL-Library.Multiset"
begin

section \<open>The sample type\<close>

text \<open>
  \<^verbatim>\<open>Statistic<T, C, _useStdDev>\<close> stores its samples in a floating point type \<open>T\<close>.
  The embedding keeps the four kinds of value such a type has: not-a-number, the two
  infinities, and the finite numbers. Finite arithmetic is exact (a finite value is a
  \<open>real\<close>): rounding and overflow to infinity are not part of the model, and the two
  signed zeros are one value (they compare equal, and the code never divides by a
  sample). Every operation follows the IEEE rules for the special values.
\<close>

datatype value_type = NaN | PInf | NInf | Fin real

fun fneg :: "value_type \<Rightarrow> value_type" where
  "fneg NaN = NaN"
| "fneg PInf = NInf"
| "fneg NInf = PInf"
| "fneg (Fin x) = Fin (- x)"

fun fadd :: "value_type \<Rightarrow> value_type \<Rightarrow> value_type" where
  "fadd NaN b = NaN"
| "fadd a NaN = NaN"
| "fadd PInf NInf = NaN"
| "fadd NInf PInf = NaN"
| "fadd PInf b = PInf"
| "fadd a PInf = PInf"
| "fadd NInf b = NInf"
| "fadd a NInf = NInf"
| "fadd (Fin x) (Fin y) = Fin (x + y)"

definition fsub :: "value_type \<Rightarrow> value_type \<Rightarrow> value_type" where
  "fsub a b = fadd a (fneg b)"

text \<open>The infinity whose sign is that of a product or quotient of two signed operands.\<close>

definition inf_of_sign :: "bool \<Rightarrow> value_type" where
  "inf_of_sign neg = (if neg then NInf else PInf)"

fun fmul :: "value_type \<Rightarrow> value_type \<Rightarrow> value_type" where
  "fmul NaN b = NaN"
| "fmul a NaN = NaN"
| "fmul (Fin x) (Fin y) = Fin (x * y)"
| "fmul (Fin x) PInf = (if x = 0 then NaN else inf_of_sign (x < 0))"
| "fmul (Fin x) NInf = (if x = 0 then NaN else inf_of_sign (0 < x))"
| "fmul PInf (Fin y) = (if y = 0 then NaN else inf_of_sign (y < 0))"
| "fmul NInf (Fin y) = (if y = 0 then NaN else inf_of_sign (0 < y))"
| "fmul PInf PInf = PInf"
| "fmul NInf NInf = PInf"
| "fmul PInf NInf = NInf"
| "fmul NInf PInf = NInf"

text \<open>
  Division. Every divisor in the code is a converted unsigned count, so a zero divisor
  is the positive zero.
\<close>

fun fdiv :: "value_type \<Rightarrow> value_type \<Rightarrow> value_type" where
  "fdiv NaN b = NaN"
| "fdiv a NaN = NaN"
| "fdiv (Fin x) (Fin y) =
     (if y = 0 then (if x = 0 then NaN else inf_of_sign (x < 0)) else Fin (x / y))"
| "fdiv (Fin x) PInf = Fin 0"
| "fdiv (Fin x) NInf = Fin 0"
| "fdiv PInf (Fin y) = inf_of_sign (y < 0)"
| "fdiv NInf (Fin y) = inf_of_sign (0 \<le> y)"
| "fdiv PInf PInf = NaN"
| "fdiv PInf NInf = NaN"
| "fdiv NInf PInf = NaN"
| "fdiv NInf NInf = NaN"

fun fsqrt :: "value_type \<Rightarrow> value_type" where
  "fsqrt NaN = NaN"
| "fsqrt PInf = PInf"
| "fsqrt NInf = NaN"
| "fsqrt (Fin x) = (if x < 0 then NaN else Fin (sqrt x))"

text \<open>The comparisons \<^verbatim>\<open><\<close>, \<^verbatim>\<open>>\<close> and \<^verbatim>\<open><=\<close>: false as soon as one side is not a number.\<close>

fun flt :: "value_type \<Rightarrow> value_type \<Rightarrow> bool" where
  "flt NaN b = False"
| "flt a NaN = False"
| "flt (Fin x) (Fin y) = (x < y)"
| "flt NInf NInf = False"
| "flt NInf b = True"
| "flt a NInf = False"
| "flt PInf b = False"
| "flt a PInf = True"

definition fgt :: "value_type \<Rightarrow> value_type \<Rightarrow> bool" where
  "fgt a b = flt b a"

definition fle :: "value_type \<Rightarrow> value_type \<Rightarrow> bool" where
  "fle a b = (a \<noteq> NaN \<and> b \<noteq> NaN \<and> (a = b \<or> flt a b))"

text \<open>The classification of a value, as \<^verbatim>\<open>std::isnan\<close> and \<^verbatim>\<open>std::isfinite\<close> give it.\<close>

fun isnan :: "value_type \<Rightarrow> bool" where
  "isnan NaN = True"
| "isnan v = False"

fun isfinite :: "value_type \<Rightarrow> bool" where
  "isfinite (Fin x) = True"
| "isfinite v = False"

text \<open>The conversion of a count (an unsigned integer of type \<open>C\<close>) to the sample type.\<close>

definition of_count :: "'c::len word \<Rightarrow> value_type" where
  "of_count c = Fin (real (unat c))"

section \<open>The accumulator\<close>

text \<open>
  The member \<^verbatim>\<open>_extra\<close> is a \<^verbatim>\<open>StdDev\<close> (holding \<^verbatim>\<open>_ssqdif\<close>) when the template
  flag \<^verbatim>\<open>_useStdDev\<close> is set and an \<^verbatim>\<open>Empty\<close> otherwise.
\<close>

datatype extra = Empty | StdDev value_type

fun extra_clear :: "extra \<Rightarrow> extra" where
  "extra_clear Empty = Empty"
| "extra_clear (StdDev v) = StdDev (Fin 0)"

fun ssqdif :: "extra \<Rightarrow> value_type" where
  "ssqdif Empty = NaN"
| "ssqdif (StdDev v) = v"

fun ssqdif_set :: "extra \<Rightarrow> value_type \<Rightarrow> extra" where
  "ssqdif_set Empty v = Empty"
| "ssqdif_set (StdDev w) v = StdDev v"

text \<open>
  The members of \<^verbatim>\<open>Statistic<T, C, _useStdDev>\<close>. The count \<^verbatim>\<open>_cnt\<close> has the unsigned
  integer type \<open>C\<close>, a word of some width \<open>'c\<close> whose arithmetic wraps around; the
  type \<^verbatim>\<open>Statistic\<close> that the header exports is \<open>32 statistic\<close> with the flag set.
\<close>

record (overloaded) 'c statistic =
  m_cnt :: "'c word"
  m_sum :: value_type
  m_min :: value_type
  m_max :: value_type
  m_extra :: extra

text \<open>
  The default constructor, for either value of the flag \<^verbatim>\<open>_useStdDev\<close>. The
  deprecated \<^verbatim>\<open>Statistic(bool)\<close> leaves the same initial members, and the deprecated
  \<^verbatim>\<open>clear(bool)\<close> calls \<^verbatim>\<open>clear()\<close>.
\<close>

definition Statistic :: "bool \<Rightarrow> 'c::len statistic" where
  "Statistic useStdDev =
     \<lparr> m_cnt = 0, m_sum = Fin 0, m_min = Fin 0, m_max = Fin 0,
       m_extra = (if useStdDev then StdDev (Fin 0) else Empty) \<rparr>"

definition clear :: "'c::len statistic \<Rightarrow> 'c statistic" where
  "clear s = s\<lparr> m_cnt := 0, m_sum := Fin 0, m_min := Fin 0, m_max := Fin 0,
               m_extra := extra_clear (m_extra s) \<rparr>"

text \<open>\<^verbatim>\<open>add\<close> returns the value it returns in the code, and the updated accumulator.\<close>

definition add :: "bool \<Rightarrow> value_type \<Rightarrow> 'c::len statistic \<Rightarrow> value_type \<times> 'c statistic" where
  "add useStdDev val s =
     (let previousSum = m_sum s;
          s1 = (if m_cnt s = 0 then s\<lparr> m_min := val, m_max := val \<rparr>
                else if flt val (m_min s) then s\<lparr> m_min := val \<rparr>
                else if fgt val (m_max s) then s\<lparr> m_max := val \<rparr>
                else s);
          s2 = s1\<lparr> m_sum := fadd (m_sum s1) val \<rparr>;
          s3 = s2\<lparr> m_cnt := m_cnt s2 + 1 \<rparr>;
          s4 = (if useStdDev \<and> 1 < m_cnt s3
                then (let store = fsub (fdiv (m_sum s3) (of_count (m_cnt s3))) val
                      in s3\<lparr> m_extra := ssqdif_set (m_extra s3)
                            (fadd (ssqdif (m_extra s3))
                               (fdiv (fmul (fmul (of_count (m_cnt s3)) store) store)
                                     (of_count (m_cnt s3 - 1)))) \<rparr>)
                else s3)
      in (fsub (m_sum s4) previousSum, s4))"

definition count_st :: "'c::len statistic \<Rightarrow> 'c word" where
  "count_st s = m_cnt s"

definition sum_st :: "'c::len statistic \<Rightarrow> value_type" where
  "sum_st s = m_sum s"

definition minimum :: "'c::len statistic \<Rightarrow> value_type" where
  "minimum s = m_min s"

definition maximum :: "'c::len statistic \<Rightarrow> value_type" where
  "maximum s = m_max s"

definition average :: "'c::len statistic \<Rightarrow> value_type" where
  "average s = (if m_cnt s = 0 then NaN else fdiv (m_sum s) (of_count (m_cnt s)))"

definition variance :: "bool \<Rightarrow> 'c::len statistic \<Rightarrow> value_type" where
  "variance useStdDev s =
     (if \<not> useStdDev then NaN
      else if m_cnt s = 0 then NaN
      else fdiv (ssqdif (m_extra s)) (of_count (m_cnt s)))"

definition pop_stdev :: "bool \<Rightarrow> 'c::len statistic \<Rightarrow> value_type" where
  "pop_stdev useStdDev s =
     (if \<not> useStdDev then NaN
      else if m_cnt s = 0 then NaN
      else fsqrt (fdiv (ssqdif (m_extra s)) (of_count (m_cnt s))))"

definition unbiased_stdev :: "bool \<Rightarrow> 'c::len statistic \<Rightarrow> value_type" where
  "unbiased_stdev useStdDev s =
     (if \<not> useStdDev then NaN
      else if m_cnt s < 2 then NaN
      else fsqrt (fdiv (ssqdif (m_extra s)) (of_count (m_cnt s - 1))))"

section \<open>Runs of the accumulator\<close>

text \<open>Adding a list of samples in order, each return value dropped.\<close>

definition add_all :: "bool \<Rightarrow> value_type list \<Rightarrow> 'c::len statistic \<Rightarrow> 'c statistic" where
  "add_all useStdDev xs s = foldl (\<lambda>t v. snd (add useStdDev v t)) s xs"

text \<open>
  A client can only construct an accumulator, add to it and clear it. A reachable state
  is the result of a list of such calls on a fresh accumulator.
\<close>

datatype call = Add value_type | Clear

fun do_call :: "bool \<Rightarrow> 'c::len statistic \<Rightarrow> call \<Rightarrow> 'c statistic" where
  "do_call useStdDev s (Add v) = snd (add useStdDev v s)"
| "do_call useStdDev s Clear = clear s"

definition run :: "bool \<Rightarrow> call list \<Rightarrow> 'c::len statistic" where
  "run useStdDev cs = foldl (do_call useStdDev) (Statistic useStdDev) cs"

text \<open>The samples added since the accumulator was constructed or last cleared.\<close>

fun samples_step :: "value_type list \<Rightarrow> call \<Rightarrow> value_type list" where
  "samples_step acc (Add v) = acc @ [v]"
| "samples_step acc Clear = []"

definition samples :: "call list \<Rightarrow> value_type list" where
  "samples cs = foldl samples_step [] cs"

text \<open>A call that passes no infinity and no not-a-number.\<close>

fun finite_call :: "call \<Rightarrow> bool" where
  "finite_call (Add v) = isfinite v"
| "finite_call Clear = True"

section \<open>The textbook recurrence of Welford\<close>

text \<open>
  The reference the specification names for the sum of squared differences, in its
  words: \<^verbatim>\<open>delta = value - mean_before\<close>,
  \<^verbatim>\<open>mean_after = mean_before + delta/count\<close>,
  \<^verbatim>\<open>sumSquaredDiff += delta * (value - mean_after)\<close>, over the real numbers and with
  the count a natural number, the count being the number of samples the new one included.
\<close>

record welford =
  w_count :: nat
  w_mean :: real
  w_sumSquaredDiff :: real

definition welford_step :: "welford \<Rightarrow> real \<Rightarrow> welford" where
  "welford_step w val =
     (let count = w_count w + 1;
          mean_before = w_mean w;
          delta = val - mean_before;
          mean_after = mean_before + delta / real count
      in \<lparr> w_count = count, w_mean = mean_after,
           w_sumSquaredDiff = w_sumSquaredDiff w + delta * (val - mean_after) \<rparr>)"

definition textbook_welford :: "real list \<Rightarrow> welford" where
  "textbook_welford rs =
     foldl welford_step \<lparr> w_count = 0, w_mean = 0, w_sumSquaredDiff = 0 \<rparr> rs"

section \<open>Basic facts\<close>

subsection \<open>Special values\<close>

lemma isnan_iff: "isnan v = (v = NaN)"
  by (cases v) simp_all

lemma flt_NaN_right: "flt a NaN = False"
  by (cases a) simp_all

lemma flt_irrefl: "\<not> flt a a"
  by (cases a) simp_all

lemma flt_fle: "flt a b \<Longrightarrow> fle a b"
  by (cases a; cases b) (auto simp add: fle_def)

lemma fle_refl: "a \<noteq> NaN \<Longrightarrow> fle a a"
  by (simp add: fle_def)

lemma fle_total: "a \<noteq> NaN \<Longrightarrow> b \<noteq> NaN \<Longrightarrow> \<not> flt a b \<Longrightarrow> fle b a"
  by (cases a; cases b) (auto simp add: fle_def)

lemma fle_trans: "fle a b \<Longrightarrow> fle b c \<Longrightarrow> fle a c"
  by (cases a; cases b; cases c) (auto simp add: fle_def)

lemma fle_antisym: "fle a b \<Longrightarrow> fle b a \<Longrightarrow> a = b"
  by (cases a; cases b) (auto simp add: fle_def)

lemma fadd_right_commute: "fadd (fadd a x) y = fadd (fadd a y) x"
  by (cases a; cases x; cases y) simp_all

subsection \<open>One call of \<^verbatim>\<open>add\<close>, field by field\<close>

lemma add_cnt: "m_cnt (snd (add u v s)) = m_cnt s + 1"
  by (simp add: add_def Let_def)

lemma add_sum: "m_sum (snd (add u v s)) = fadd (m_sum s) v"
  by (simp add: add_def Let_def)

lemma add_min:
  "m_min (snd (add u v s)) = (if m_cnt s = 0 then v else if flt v (m_min s) then v else m_min s)"
  by (simp add: add_def Let_def)

lemma add_max:
  "m_max (snd (add u v s)) =
     (if m_cnt s = 0 then v else if flt v (m_min s) then m_max s
      else if flt (m_max s) v then v else m_max s)"
  by (simp add: add_def Let_def fgt_def)

lemma add_extra:
  "m_extra (snd (add u v s)) =
     (if u \<and> 1 < m_cnt s + 1
      then ssqdif_set (m_extra s)
             (fadd (ssqdif (m_extra s))
                (fdiv (fmul (fmul (of_count (m_cnt s + 1))
                               (fsub (fdiv (fadd (m_sum s) v) (of_count (m_cnt s + 1))) v))
                         (fsub (fdiv (fadd (m_sum s) v) (of_count (m_cnt s + 1))) v))
                      (of_count (m_cnt s))))
      else m_extra s)"
  by (auto simp add: add_def Let_def)

lemma add_ret: "fst (add u v s) = fsub (fadd (m_sum s) v) (m_sum s)"
  by (simp add: add_def Let_def)

lemma Statistic_fields:
  "m_cnt (Statistic u) = 0" "m_sum (Statistic u) = Fin 0"
  "m_min (Statistic u) = Fin 0" "m_max (Statistic u) = Fin 0"
  by (simp_all add: Statistic_def)

subsection \<open>Lists of samples and lists of calls\<close>

lemma add_all_Nil: "add_all u [] s = s"
  by (simp add: add_all_def)

lemma add_all_snoc: "add_all u (xs @ [v]) s = snd (add u v (add_all u xs s))"
  by (simp add: add_all_def)

lemma add_all_Cons: "add_all u (v # xs) s = add_all u xs (snd (add u v s))"
  by (simp add: add_all_def)

lemma run_Nil: "run u [] = Statistic u"
  by (simp add: run_def)

lemma run_snoc: "run u (cs @ [c]) = do_call u (run u cs) c"
  by (simp add: run_def)

lemma samples_Nil: "samples [] = []"
  by (simp add: samples_def)

lemma samples_snoc: "samples (cs @ [c]) = samples_step (samples cs) c"
  by (simp add: samples_def)

lemma replicate_snoc: "replicate (Suc n) x = replicate n x @ [x]"
  by (simp add: replicate_append_same)

lemma add_all_cnt: "m_cnt (add_all u xs s) = m_cnt s + of_nat (length xs)"
  by (induction xs rule: rev_induct) (simp_all add: add_all_Nil add_all_snoc add_cnt)

lemma add_all_init_cnt:
  "m_cnt (add_all u xs (Statistic u :: 'c::len statistic)) = of_nat (length xs)"
  by (simp add: add_all_cnt Statistic_def)

lemma add_all_sum: "m_sum (add_all u xs s) = foldl fadd (m_sum s) xs"
  by (induction xs rule: rev_induct) (simp_all add: add_all_Nil add_all_snoc add_sum)

subsection \<open>The kind of \<^verbatim>\<open>_extra\<close> never changes\<close>

lemma ssqdif_set_kind: "(ssqdif_set e v = Empty) = (e = Empty)"
  by (cases e) simp_all

lemma extra_clear_kind: "(extra_clear e = Empty) = (e = Empty)"
  by (cases e) simp_all

lemma run_extra_kind: "(m_extra (run u cs) = Empty) = (\<not> u)"
proof (induction cs rule: rev_induct)
  case Nil
  show ?case by (simp add: run_Nil Statistic_def)
next
  case (snoc c cs)
  then show ?case
    by (cases c) (auto simp add: run_snoc add_extra ssqdif_set_kind clear_def extra_clear_kind)
qed

lemma clear_run: "clear (run u cs :: 'c::len statistic) = Statistic u"
proof -
  have "extra_clear (m_extra (run u cs :: 'c statistic)) = (if u then StdDev (Fin 0) else Empty)"
    using run_extra_kind [of u cs, where 'a='c]
    by (cases "m_extra (run u cs :: 'c statistic)") (auto split: if_splits)
  then show ?thesis by (simp add: clear_def Statistic_def)
qed

text \<open>
  A reachable state is the fresh accumulator with the samples added since the last
  \<^verbatim>\<open>clear\<close>.
\<close>

lemma run_samples: "run u cs = add_all u (samples cs) (Statistic u)"
proof (induction cs rule: rev_induct)
  case Nil
  show ?case by (simp add: run_Nil samples_Nil add_all_Nil)
next
  case (snoc c cs)
  show ?case
  proof (cases c)
    case (Add v)
    then show ?thesis using snoc by (simp add: run_snoc samples_snoc add_all_snoc)
  next
    case Clear
    then show ?thesis by (simp add: run_snoc samples_snoc add_all_Nil clear_run)
  qed
qed

subsection \<open>Counts\<close>

lemma of_count_of_nat:
  "n < 2 ^ LENGTH('c) \<Longrightarrow> of_count (of_nat n :: 'c::len word) = Fin (real n)"
  by (simp add: of_count_def unat_of_nat)

lemma one_less_of_nat: "n < 2 ^ LENGTH('c) \<Longrightarrow> (1 < (of_nat n :: 'c::len word)) = (1 < n)"
  by (simp add: word_less_nat_alt unat_of_nat)

lemma of_nat_zero_small: "n < 2 ^ LENGTH('c) \<Longrightarrow> (of_nat n = (0 :: 'c::len word)) = (n = 0)"
  using of_nat_neq_0 [of n, where 'a='c] by auto

lemma one_le_word: "(1 \<le> (c :: 'c::len word)) = (c \<noteq> 0)"
  by (simp add: word_le_nat_alt) (metis unat_gt_0 Suc_leI not_less_eq_eq le_zero_eq unat_eq_0)

lemma unat_pos: "(c :: 'c::len word) \<noteq> 0 \<Longrightarrow> 0 < real (unat c)"
  by (metis unat_gt_0 of_nat_0_less_iff)

lemma of_count_pos: "(c :: 'c::len word) \<noteq> 0 \<Longrightarrow> \<exists>r. 0 < r \<and> of_count c = Fin r"
  unfolding of_count_def using unat_pos [of c] by blast

lemma two_le_pred:
  fixes c :: "'c::len word"
  assumes "2 \<le> LENGTH('c)" "\<not> c < 2"
  shows "c - 1 \<noteq> 0 \<and> c \<noteq> 0"
proof -
  have "(2::nat) ^ 2 \<le> 2 ^ LENGTH('c)" using assms(1) by (rule power_increasing) simp
  then have "(2::nat) < 2 ^ LENGTH('c)" by simp
  then have "unat (2 :: 'c word) = 2" by (simp add: unat_of_nat [of 2, where 'a='c, simplified])
  then have "2 \<le> unat c" using assms(2) by (simp add: word_less_nat_alt)
  then have "c \<noteq> 0" "c \<noteq> 1" by auto
  then show ?thesis by auto
qed

subsection \<open>The same sample many times\<close>

lemma add_all_replicate_min_max:
  "0 < n \<Longrightarrow>
   m_min (add_all u (replicate n v) (Statistic u :: 'c::len statistic)) = v \<and>
   m_max (add_all u (replicate n v) (Statistic u :: 'c statistic)) = v"
proof (induction n)
  case 0
  then show ?case by simp
next
  case (Suc n)
  show ?case
  proof (cases "n = 0")
    case True
    then show ?thesis
      by (simp add: add_all_Cons add_all_Nil add_min add_max Statistic_fields)
  next
    case False
    then show ?thesis using Suc.IH
      by (simp only: replicate_snoc add_all_snoc) (simp add: add_min add_max flt_irrefl)
  qed
qed

lemma add_all_ones_sum:
  "m_sum (add_all u (replicate n (Fin 1)) (Statistic u :: 'c::len statistic)) = Fin (real n)"
proof (induction n)
  case 0
  show ?case by (simp add: add_all_Nil Statistic_fields)
next
  case (Suc n)
  then show ?case
    by (simp only: replicate_snoc add_all_snoc) (simp add: add_sum add.commute)
qed

subsection \<open>Minimum and maximum without NaN and without wrap-around\<close>

lemma min_max_attained_aux:
  fixes xs :: "value_type list"
  assumes "xs \<noteq> []" "NaN \<notin> set xs" "length xs \<le> 2 ^ LENGTH('c)"
  shows "m_min (add_all u xs (Statistic u :: 'c::len statistic)) \<in> set xs \<and>
         m_max (add_all u xs (Statistic u :: 'c statistic)) \<in> set xs \<and>
         (\<forall>v \<in> set xs. fle (m_min (add_all u xs (Statistic u :: 'c statistic))) v \<and>
                         fle v (m_max (add_all u xs (Statistic u :: 'c statistic))))"
  using assms
proof (induction xs rule: rev_induct)
  case Nil
  then show ?case by simp
next
  case (snoc x xs)
  let ?s = "add_all u xs (Statistic u :: 'c statistic)"
  have x: "x \<noteq> NaN" using snoc.prems by auto
  show ?case
  proof (cases "xs = []")
    case True
    then show ?thesis using x
      by (simp add: add_all_Cons add_all_Nil add_min add_max Statistic_fields fle_refl)
  next
    case False
    have len: "length xs < 2 ^ LENGTH('c)" using snoc.prems by simp
    then have cz: "m_cnt ?s \<noteq> 0"
      using False by (simp add: add_all_init_cnt of_nat_zero_small)
    have ih: "m_min ?s \<in> set xs" "m_max ?s \<in> set xs"
      "\<forall>v \<in> set xs. fle (m_min ?s) v \<and> fle v (m_max ?s)"
      using snoc.IH [OF False] snoc.prems len by simp_all
    have mn: "m_min ?s \<noteq> NaN" and mx: "m_max ?s \<noteq> NaN"
      using ih snoc.prems by auto
    have mm: "fle (m_min ?s) (m_max ?s)" using ih by blast
    consider (lo) "flt x (m_min ?s)" | (hi) "\<not> flt x (m_min ?s)" "flt (m_max ?s) x"
      | (mid) "\<not> flt x (m_min ?s)" "\<not> flt (m_max ?s) x" by blast
    then show ?thesis
    proof cases
      case lo
      then have a: "m_min (snd (add u x ?s)) = x" "m_max (snd (add u x ?s)) = m_max ?s"
        using cz by (simp_all add: add_min add_max)
      have "fle x (m_min ?s)" using lo by (rule flt_fle)
      then have "\<forall>v \<in> set xs. fle x v" "fle x (m_max ?s)"
        using ih mm by (blast intro: fle_trans)+
      then show ?thesis using a ih x by (simp add: add_all_snoc fle_refl)
    next
      case hi
      then have a: "m_min (snd (add u x ?s)) = m_min ?s" "m_max (snd (add u x ?s)) = x"
        using cz by (simp_all add: add_min add_max)
      have "fle (m_max ?s) x" using hi by (simp add: flt_fle)
      then have "\<forall>v \<in> set xs. fle v x" "fle (m_min ?s) x"
        using ih mm by (blast intro: fle_trans)+
      then show ?thesis using a ih x by (simp add: add_all_snoc fle_refl)
    next
      case mid
      then have a: "m_min (snd (add u x ?s)) = m_min ?s" "m_max (snd (add u x ?s)) = m_max ?s"
        using cz by (simp_all add: add_min add_max)
      have "fle (m_min ?s) x" "fle x (m_max ?s)"
        using mid x mn mx by (simp_all add: fle_total)
      then show ?thesis using a ih by (simp add: add_all_snoc)
    qed
  qed
qed

section \<open>The concrete scenario\<close>

lemma scenario_state:
  "add_all True [Fin 2, Fin 4, Fin 4, Fin 4, Fin 5, Fin 5, Fin 7, Fin 9]
     (Statistic True :: 32 statistic)
   = \<lparr> m_cnt = 8, m_sum = Fin 40, m_min = Fin 2, m_max = Fin 9, m_extra = StdDev (Fin 32) \<rparr>"
  by (simp add: add_all_def add_def Statistic_def Let_def fsub_def fgt_def of_count_def)

lemma sqrt_32_7: "\<bar>sqrt (32 / 7) - 2138 / 1000\<bar> < (1 / 1000 :: real)"
proof -
  have lo: "(2138 / 1000 :: real) < sqrt (32 / 7)"
    by (rule real_less_rsqrt) (simp add: power2_eq_square)
  have hi: "sqrt (32 / 7) < (2139 / 1000 :: real)"
    by (rule real_less_lsqrt) (simp_all add: power2_eq_square)
  from lo hi show ?thesis by simp
qed

text \<open>
  C1. The samples 2, 4, 4, 4, 5, 5, 7, 9 added in that order to a fresh accumulator of the
  default type (32-bit count, variance tracking enabled): the count is 8, the sum 40, the
  average 5, the minimum 2, the maximum 9, the population standard deviation 2, and the
  unbiased standard deviation is the square root of 32/7, within 0.001 of 2.138.
  Arithmetic is exact here; the rounding of \<^verbatim>\<open>float\<close> is not modelled.
\<close>

theorem scenario_eight_samples:
  "count_st (add_all True [Fin 2, Fin 4, Fin 4, Fin 4, Fin 5, Fin 5, Fin 7, Fin 9]
     (Statistic True :: 32 statistic)) = 8 \<and>
   sum_st (add_all True [Fin 2, Fin 4, Fin 4, Fin 4, Fin 5, Fin 5, Fin 7, Fin 9]
     (Statistic True :: 32 statistic)) = Fin 40 \<and>
   average (add_all True [Fin 2, Fin 4, Fin 4, Fin 4, Fin 5, Fin 5, Fin 7, Fin 9]
     (Statistic True :: 32 statistic)) = Fin 5 \<and>
   minimum (add_all True [Fin 2, Fin 4, Fin 4, Fin 4, Fin 5, Fin 5, Fin 7, Fin 9]
     (Statistic True :: 32 statistic)) = Fin 2 \<and>
   maximum (add_all True [Fin 2, Fin 4, Fin 4, Fin 4, Fin 5, Fin 5, Fin 7, Fin 9]
     (Statistic True :: 32 statistic)) = Fin 9 \<and>
   pop_stdev True (add_all True [Fin 2, Fin 4, Fin 4, Fin 4, Fin 5, Fin 5, Fin 7, Fin 9]
     (Statistic True :: 32 statistic)) = Fin 2 \<and>
   unbiased_stdev True (add_all True [Fin 2, Fin 4, Fin 4, Fin 4, Fin 5, Fin 5, Fin 7, Fin 9]
     (Statistic True :: 32 statistic)) = Fin (sqrt (32 / 7)) \<and>
   \<bar>sqrt (32 / 7) - 2138 / 1000\<bar> < (1 / 1000 :: real)"
  using sqrt_32_7
  by (simp add: scenario_state count_st_def sum_st_def average_def minimum_def maximum_def
      pop_stdev_def unbiased_stdev_def of_count_def)

section \<open>The sum of squared differences and the textbook recurrence\<close>

lemma welford_Nil:
  "textbook_welford [] = \<lparr> w_count = 0, w_mean = 0, w_sumSquaredDiff = 0 \<rparr>"
  by (simp add: textbook_welford_def)

lemma welford_snoc: "textbook_welford (rs @ [r]) = welford_step (textbook_welford rs) r"
  by (simp add: textbook_welford_def)

text \<open>
  The two increments agree: with \<open>S\<close> the sum and \<open>n\<close> the number of the samples before
  the new one \<open>v\<close>, both are the square of \<open>S - n v\<close> over \<open>n (n + 1)\<close>.
\<close>

lemma welford_algebra:
  fixes S v :: real and n :: nat
  assumes "0 < n"
  shows "real (n + 1) * ((S + v) / real (n + 1) - v) * ((S + v) / real (n + 1) - v) / real n
       = (v - S / real n) * (v - (S / real n + (v - S / real n) / real (n + 1)))"
proof -
  define a where "a = real n"
  have a: "0 < a" using assms by (simp add: a_def)
  have "(a + 1) * ((S + v) / (a + 1) - v) * ((S + v) / (a + 1) - v) / a
       = (v - S / a) * (v - (S / a + (v - S / a) / (a + 1)))"
  proof -
    have nz: "a \<noteq> 0" "a + 1 \<noteq> 0" using a by simp_all
    have st: "(S + v) / (a + 1) - v = (S - a * v) / (a + 1)"
      using nz by (simp add: field_simps)
    have de: "v - S / a = (a * v - S) / a"
      using nz by (simp add: field_simps)
    have "v - (S / a + (v - S / a) / (a + 1)) = (v - S / a) * (1 - 1 / (a + 1))"
      by (simp add: algebra_simps diff_divide_distrib)
    also have "1 - 1 / (a + 1) = a / (a + 1)"
      using nz by (simp add: field_simps)
    also have "(v - S / a) * (a / (a + 1)) = (a * v - S) / (a + 1)"
      unfolding de using nz by simp
    finally have ma: "v - (S / a + (v - S / a) / (a + 1)) = (a * v - S) / (a + 1)" .
    define d where "d = S - a * v"
    have neg: "a * v - S = - d" by (simp add: d_def)
    have l: "(a + 1) * ((S + v) / (a + 1) - v) * ((S + v) / (a + 1) - v) / a
           = d * d / (a * (a + 1))"
      unfolding st d_def [symmetric] using nz by simp
    have r: "(v - S / a) * (v - (S / a + (v - S / a) / (a + 1))) = d * d / (a * (a + 1))"
      unfolding ma unfolding de neg by simp
    show ?thesis using l r by simp
  qed
  then show ?thesis by (simp add: a_def add.commute)
qed

lemma welford_mean_algebra:
  fixes S v :: real and n :: nat
  assumes "0 < n"
  shows "S / real n + (v - S / real n) / real (n + 1) = (S + v) / real (n + 1)"
proof -
  define a where "a = real n"
  have nz: "a \<noteq> 0" "a + 1 \<noteq> 0" using assms by (simp_all add: a_def)
  have "S / a + (v - S / a) / (a + 1) = (S / a * (a + 1) + (v - S / a)) / (a + 1)"
    using nz by (simp add: add_divide_distrib)
  also have "S / a * (a + 1) + (v - S / a) = S + v"
    using nz by (simp add: distrib_left)
  finally show ?thesis by (simp add: a_def add.commute)
qed

text \<open>What one \<^verbatim>\<open>add\<close> of a finite sample does to \<^verbatim>\<open>_ssqdif\<close> while the count is exact.\<close>

lemma add_finite_step:
  fixes s :: "'c::len statistic"
  assumes n: "Suc n < 2 ^ LENGTH('c)"
    and c: "m_cnt s = of_nat n"
    and S: "m_sum s = Fin S"
    and q: "m_extra s = StdDev (Fin q)"
  shows "m_extra (snd (add True (Fin v) s)) =
     StdDev (Fin (if 0 < n
        then q + real (n + 1) * ((S + v) / real (n + 1) - v) * ((S + v) / real (n + 1) - v) / real n
        else q))"
proof -
  have n': "n < 2 ^ LENGTH('c)" using n by simp
  have c1: "m_cnt s + 1 = of_nat (Suc n)" using c by simp
  have lt: "(1 < m_cnt s + 1) = (0 < n)"
    unfolding c1 using one_less_of_nat [OF n] by auto
  have oc1: "of_count (m_cnt s + 1) = Fin (real (n + 1))"
    unfolding c1 using of_count_of_nat [OF n] by simp
  have oc: "of_count (m_cnt s) = Fin (real n)"
    unfolding c using of_count_of_nat [OF n'] by simp
  show ?thesis
    by (simp add: add_extra lt oc1 oc S q fsub_def)
qed

lemma welford_refines:
  fixes rs :: "real list"
  assumes "length rs < 2 ^ LENGTH('c)"
  shows "m_cnt (add_all True (map Fin rs) (Statistic True :: 'c::len statistic)) = of_nat (length rs) \<and>
         m_sum (add_all True (map Fin rs) (Statistic True :: 'c statistic)) = Fin (sum_list rs) \<and>
         m_extra (add_all True (map Fin rs) (Statistic True :: 'c statistic))
           = StdDev (Fin (w_sumSquaredDiff (textbook_welford rs))) \<and>
         w_count (textbook_welford rs) = length rs \<and>
         (0 < length rs \<longrightarrow> w_mean (textbook_welford rs) = sum_list rs / real (length rs)) \<and>
         (length rs = 0 \<longrightarrow> w_mean (textbook_welford rs) = 0)"
  using assms
proof (induction rs rule: rev_induct)
  case Nil
  show ?case by (simp add: add_all_Nil Statistic_def welford_Nil)
next
  case (snoc v rs)
  let ?s = "add_all True (map Fin rs) (Statistic True :: 'c statistic)"
  let ?w = "textbook_welford rs"
  let ?n = "length rs"
  have n: "Suc ?n < 2 ^ LENGTH('c)" using snoc.prems by simp
  then have "?n < 2 ^ LENGTH('c)" by simp
  note ih = snoc.IH [OF this]
  have c: "m_cnt ?s = of_nat ?n" and S: "m_sum ?s = Fin (sum_list rs)"
    and q: "m_extra ?s = StdDev (Fin (w_sumSquaredDiff ?w))" and wc: "w_count ?w = ?n"
    using ih by simp_all
  have st: "add_all True (map Fin (rs @ [v])) (Statistic True :: 'c statistic)
            = snd (add True (Fin v) ?s)"
    by (simp add: add_all_snoc)
  have ex: "m_extra (snd (add True (Fin v) ?s)) =
     StdDev (Fin (if 0 < ?n
        then w_sumSquaredDiff ?w + real (?n + 1) * ((sum_list rs + v) / real (?n + 1) - v)
               * ((sum_list rs + v) / real (?n + 1) - v) / real ?n
        else w_sumSquaredDiff ?w))"
    by (rule add_finite_step [OF n c S q])
  show ?case
  proof (cases "0 < ?n")
    case True
    then have m: "w_mean ?w = sum_list rs / real ?n" using ih by simp
    have ws: "w_sumSquaredDiff (textbook_welford (rs @ [v])) =
              w_sumSquaredDiff ?w + real (?n + 1) * ((sum_list rs + v) / real (?n + 1) - v)
               * ((sum_list rs + v) / real (?n + 1) - v) / real ?n"
      unfolding welford_snoc welford_step_def Let_def wc m
      using welford_algebra [OF True, of "sum_list rs" v] by simp
    have wm: "w_mean (textbook_welford (rs @ [v])) = (sum_list rs + v) / real (?n + 1)"
      unfolding welford_snoc welford_step_def Let_def wc m
      using welford_mean_algebra [OF True, of "sum_list rs" v] by simp
    have wn: "w_count (textbook_welford (rs @ [v])) = Suc ?n"
      by (simp add: welford_snoc welford_step_def Let_def wc)
    show ?thesis
      unfolding st using True ex ws wm wn
      by (simp add: add_cnt add_sum c S)
  next
    case False
    then have e: "rs = []" by simp
    show ?thesis
      unfolding st using ex
      by (simp add: e add_cnt add_sum add_all_Nil Statistic_def textbook_welford_def
          welford_step_def)
  qed
qed

text \<open>
  C2. For every sequence of samples, the sum of squared differences that \<^verbatim>\<open>add\<close>
  maintains with its post-increment recurrence equals, in exact arithmetic, the one the
  textbook recurrence of Welford maintains. Exact arithmetic is what the hypothesis and
  the types say: the samples are real numbers, and the count is the number of samples
  (there are fewer of them than the counter type has values, so the counter has not
  wrapped around).
\<close>

theorem ssqdif_equals_textbook_welford:
  fixes rs :: "real list"
  assumes "length rs < 2 ^ LENGTH('c)"
  shows "ssqdif (m_extra (add_all True (map Fin rs) (Statistic True :: 'c::len statistic)))
         = Fin (w_sumSquaredDiff (textbook_welford rs))"
  using welford_refines [OF assms] by simp

theorem ssqdif_equals_textbook_welford_witness:
  "length [2, 4, 4, 4, 5, 5, 7, 9 :: real] < 2 ^ LENGTH(32) \<and>
   ssqdif (m_extra (add_all True (map Fin [2, 4, 4, 4, 5, 5, 7, 9])
      (Statistic True :: 32 statistic)))
     = Fin (w_sumSquaredDiff (textbook_welford [2, 4, 4, 4, 5, 5, 7, 9])) \<and>
   w_sumSquaredDiff (textbook_welford [2, 4, 4, 4, 5, 5, 7, 9]) = 32"
proof -
  have h: "length [2, 4, 4, 4, 5, 5, 7, 9 :: real] < 2 ^ LENGTH(32)" by simp
  have c: "ssqdif (m_extra (add_all True (map Fin [2, 4, 4, 4, 5, 5, 7, 9])
      (Statistic True :: 32 statistic)))
     = Fin (w_sumSquaredDiff (textbook_welford [2, 4, 4, 4, 5, 5, 7, 9]))"
    by (rule ssqdif_equals_textbook_welford [OF h])
  have v: "w_sumSquaredDiff (textbook_welford [2, 4, 4, 4, 5, 5, 7, 9]) = 32"
    by (simp add: textbook_welford_def welford_step_def Let_def)
  show ?thesis by (rule conjI [OF h conjI [OF c v]])
qed

section \<open>The empty accumulator\<close>

text \<open>
  Counterexample to C3 as stated. The count is a 32-bit unsigned integer and wraps around:
  after 4294967296 calls \<^verbatim>\<open>add(1.0)\<close> on a fresh accumulator \<^verbatim>\<open>count()\<close> is 0, and
  the sum, the minimum and the maximum are not 0.
\<close>

theorem count_zero_after_wrap:
  "count_st (add_all True (replicate 4294967296 (Fin 1)) (Statistic True :: 32 statistic)) = 0 \<and>
   sum_st (add_all True (replicate 4294967296 (Fin 1)) (Statistic True :: 32 statistic))
     = Fin 4294967296 \<and>
   minimum (add_all True (replicate 4294967296 (Fin 1)) (Statistic True :: 32 statistic)) = Fin 1 \<and>
   maximum (add_all True (replicate 4294967296 (Fin 1)) (Statistic True :: 32 statistic)) = Fin 1"
  using add_all_replicate_min_max [of 4294967296 True "Fin 1", where 'c=32]
  by (simp add: count_st_def sum_st_def minimum_def maximum_def add_all_init_cnt add_all_ones_sum)

text \<open>
  C3, amended. In every state reached with fewer samples added since construction or the
  last \<^verbatim>\<open>clear()\<close> than the counter type has values, a count of 0 implies that the sum,
  the minimum and the maximum are 0; and in every reachable state with a count of 0,
  \<^verbatim>\<open>average()\<close> and \<^verbatim>\<open>variance()\<close> return NaN.
\<close>

theorem empty_accumulator_is_zero:
  fixes cs :: "call list"
  shows "(length (samples cs) < 2 ^ LENGTH('c) \<and> count_st (run u cs :: 'c::len statistic) = 0
            \<longrightarrow> sum_st (run u cs :: 'c statistic) = Fin 0 \<and>
                minimum (run u cs :: 'c statistic) = Fin 0 \<and>
                maximum (run u cs :: 'c statistic) = Fin 0) \<and>
         (count_st (run u cs :: 'c statistic) = 0
            \<longrightarrow> average (run u cs :: 'c statistic) = NaN \<and>
                variance u (run u cs :: 'c statistic) = NaN)"
proof -
  have "samples cs = []"
    if "length (samples cs) < 2 ^ LENGTH('c)" "count_st (run u cs :: 'c statistic) = 0"
    using that by (simp add: count_st_def run_samples add_all_init_cnt of_nat_zero_small)
  then have "run u cs = (Statistic u :: 'c statistic)"
    if "length (samples cs) < 2 ^ LENGTH('c)" "count_st (run u cs :: 'c statistic) = 0"
    using that by (simp add: run_samples [of u cs] add_all_Nil)
  then show ?thesis
    by (auto simp add: count_st_def sum_st_def minimum_def maximum_def average_def variance_def
        Statistic_fields)
qed

theorem empty_accumulator_is_zero_witness:
  "length (samples [Add (Fin 3), Clear]) < 2 ^ LENGTH(32) \<and>
   count_st (run True [Add (Fin 3), Clear] :: 32 statistic) = 0 \<and>
   sum_st (run True [Add (Fin 3), Clear] :: 32 statistic) = Fin 0 \<and>
   minimum (run True [Add (Fin 3), Clear] :: 32 statistic) = Fin 0 \<and>
   maximum (run True [Add (Fin 3), Clear] :: 32 statistic) = Fin 0 \<and>
   average (run True [Add (Fin 3), Clear] :: 32 statistic) = NaN \<and>
   variance True (run True [Add (Fin 3), Clear] :: 32 statistic) = NaN"
proof -
  let ?cs = "[Add (Fin 3), Clear]"
  have h1: "length (samples ?cs) < 2 ^ LENGTH(32)" by (simp add: samples_def)
  have h2: "count_st (run True ?cs :: 32 statistic) = 0"
    by (simp add: count_st_def run_def clear_def)
  from empty_accumulator_is_zero [of ?cs True, where 'c=32] h1 h2
  have c: "sum_st (run True ?cs :: 32 statistic) = Fin 0 \<and>
   minimum (run True ?cs :: 32 statistic) = Fin 0 \<and>
   maximum (run True ?cs :: 32 statistic) = Fin 0 \<and>
   average (run True ?cs :: 32 statistic) = NaN \<and>
   variance True (run True ?cs :: 32 statistic) = NaN" by blast
  from h1 h2 c show ?thesis by blast
qed

section \<open>NaN as the signal of an undefined result\<close>

text \<open>Finite samples keep the sum finite and the sum of squared differences finite and
  not negative, whatever the count does.\<close>

lemma add_finite_keeps:
  fixes s :: "'c::len statistic"
  assumes S: "m_sum s = Fin a" and q: "m_extra s = StdDev (Fin q)" and q0: "0 \<le> q"
  shows "\<exists>q'. 0 \<le> q' \<and> m_extra (snd (add True (Fin v) s)) = StdDev (Fin q')"
proof (cases "1 < m_cnt s + 1")
  case True
  then have nz: "m_cnt s \<noteq> 0" "m_cnt s + 1 \<noteq> 0" by auto
  define c1 where "c1 = real (unat (m_cnt s + 1))"
  define c0 where "c0 = real (unat (m_cnt s))"
  have p: "0 < c1" "0 < c0" unfolding c1_def c0_def using nz by (blast intro: unat_pos)+
  have oc: "of_count (m_cnt s + 1) = Fin c1" "of_count (m_cnt s) = Fin c0"
    by (simp_all only: of_count_def c1_def c0_def)
  define st where "st = (a + v) / c1 - v"
  have e: "m_extra (snd (add True (Fin v) s)) = StdDev (Fin (q + c1 * st * st / c0))"
    using True p by (simp add: add_extra S q oc fsub_def st_def)
  have "0 \<le> c1 * (st * st) / c0" using p by (simp add: zero_le_mult_iff zero_le_divide_iff)
  then have "0 \<le> q + c1 * st * st / c0" using q0 by (simp add: mult.assoc)
  then show ?thesis using e by blast
next
  case False
  then show ?thesis using q q0 by (simp add: add_extra)
qed

lemma run_finite_inv:
  assumes "list_all finite_call cs"
  shows "(\<exists>a. m_sum (run u cs :: 'c::len statistic) = Fin a) \<and>
         (u \<longrightarrow> (\<exists>q. 0 \<le> q \<and> m_extra (run u cs :: 'c statistic) = StdDev (Fin q)))"
  using assms
proof (induction cs rule: rev_induct)
  case Nil
  show ?case by (simp add: run_Nil Statistic_def)
next
  case (snoc c cs)
  then have ih: "\<exists>a. m_sum (run u cs :: 'c statistic) = Fin a"
    "u \<longrightarrow> (\<exists>q. 0 \<le> q \<and> m_extra (run u cs :: 'c statistic) = StdDev (Fin q))"
    by simp_all
  show ?case
  proof (cases c)
    case Clear
    then show ?thesis by (simp add: run_snoc clear_run Statistic_def)
  next
    case (Add x)
    then have "isfinite x" using snoc.prems by simp
    then obtain v where x: "x = Fin v" by (cases x) simp_all
    from ih obtain a where a: "m_sum (run u cs :: 'c statistic) = Fin a" by blast
    have s: "\<exists>b. m_sum (run u (cs @ [c]) :: 'c statistic) = Fin b"
      by (simp add: run_snoc Add x add_sum a)
    have e: "\<exists>q. 0 \<le> q \<and> m_extra (run u (cs @ [c]) :: 'c statistic) = StdDev (Fin q)" if u
    proof -
      from ih that obtain q where "0 \<le> q" "m_extra (run u cs :: 'c statistic) = StdDev (Fin q)"
        by blast
      from add_finite_keeps [OF a this(2) this(1), of v] that show ?thesis
        by (simp add: run_snoc Add x)
    qed
    from s e show ?thesis by blast
  qed
qed

lemma nan_if_guard:
  "(\<not> u \<or> m_cnt s = 0 \<longrightarrow> variance u s = NaN \<and> pop_stdev u s = NaN) \<and>
   (\<not> u \<or> m_cnt s < 2 \<longrightarrow> unbiased_stdev u s = NaN)"
  by (simp add: variance_def pop_stdev_def unbiased_stdev_def)

text \<open>
  Counterexample to C4 as stated. After \<^verbatim>\<open>add(NaN)\<close> twice, with variance tracking
  enabled, the count is 2 and \<^verbatim>\<open>variance()\<close>, \<^verbatim>\<open>pop_stdev()\<close> and
  \<^verbatim>\<open>unbiased_stdev()\<close> return NaN.
\<close>

theorem variance_nan_with_two_samples:
  "count_st (add_all True [NaN, NaN] (Statistic True :: 32 statistic)) = 2 \<and>
   variance True (add_all True [NaN, NaN] (Statistic True :: 32 statistic)) = NaN \<and>
   pop_stdev True (add_all True [NaN, NaN] (Statistic True :: 32 statistic)) = NaN \<and>
   unbiased_stdev True (add_all True [NaN, NaN] (Statistic True :: 32 statistic)) = NaN"
  by (simp add: count_st_def variance_def pop_stdev_def unbiased_stdev_def add_all_Cons
      add_all_Nil add_cnt add_sum add_extra Statistic_def of_count_def fsub_def)

text \<open>
  C4, amended. In every reachable state, \<^verbatim>\<open>variance()\<close> and \<^verbatim>\<open>pop_stdev()\<close> return NaN
  if variance tracking is disabled or the count is 0, and \<^verbatim>\<open>unbiased_stdev()\<close> returns
  NaN if variance tracking is disabled or the count is below 2. When every sample added
  was finite, these are, in exact arithmetic, the only states in which they return NaN.
  The counter type has at least two bits, as every unsigned integer type of C++ has.
\<close>

theorem nan_iff_undefined:
  fixes cs :: "call list"
  assumes w: "2 \<le> LENGTH('c)"
  shows
  "(\<not> u \<or> count_st (run u cs :: 'c::len statistic) = 0 \<longrightarrow>
       variance u (run u cs :: 'c statistic) = NaN \<and>
       pop_stdev u (run u cs :: 'c statistic) = NaN) \<and>
   (\<not> u \<or> count_st (run u cs :: 'c statistic) < 2 \<longrightarrow>
       unbiased_stdev u (run u cs :: 'c statistic) = NaN) \<and>
   (list_all finite_call cs \<longrightarrow>
      (variance u (run u cs :: 'c statistic) = NaN)
        = (\<not> u \<or> count_st (run u cs :: 'c statistic) = 0) \<and>
      (pop_stdev u (run u cs :: 'c statistic) = NaN)
        = (\<not> u \<or> count_st (run u cs :: 'c statistic) = 0) \<and>
      (unbiased_stdev u (run u cs :: 'c statistic) = NaN)
        = (\<not> u \<or> count_st (run u cs :: 'c statistic) < 2))"
proof -
  let ?s = "run u cs :: 'c statistic"
  have g: "(\<not> u \<or> m_cnt ?s = 0 \<longrightarrow> variance u ?s = NaN \<and> pop_stdev u ?s = NaN) \<and>
     (\<not> u \<or> m_cnt ?s < 2 \<longrightarrow> unbiased_stdev u ?s = NaN)"
    by (rule nan_if_guard)
  have f: "variance u ?s \<noteq> NaN \<and> pop_stdev u ?s \<noteq> NaN"
    if "list_all finite_call cs" u "m_cnt ?s \<noteq> 0"
  proof -
    from run_finite_inv [OF that(1), of u, where 'c='c] that(2)
    obtain q where q: "0 \<le> q" "m_extra ?s = StdDev (Fin q)" by blast
    from of_count_pos [OF that(3)] obtain r where "0 < r" "of_count (m_cnt ?s) = Fin r"
      by blast
    then show ?thesis using q that(2,3)
      by (simp add: variance_def pop_stdev_def not_less zero_le_divide_iff)
  qed
  have h: "unbiased_stdev u ?s \<noteq> NaN" if "list_all finite_call cs" u "\<not> m_cnt ?s < 2"
  proof -
    from run_finite_inv [OF that(1), of u, where 'c='c] that(2)
    obtain q where q: "0 \<le> q" "m_extra ?s = StdDev (Fin q)" by blast
    have "m_cnt ?s - 1 \<noteq> 0" using two_le_pred [OF w that(3)] by simp
    from of_count_pos [OF this] obtain r where "0 < r" "of_count (m_cnt ?s - 1) = Fin r"
      by blast
    then show ?thesis using q that(2,3)
      by (simp add: unbiased_stdev_def not_less zero_le_divide_iff)
  qed
  from g f h show ?thesis unfolding count_st_def by blast
qed

theorem nan_iff_undefined_witness:
  "2 \<le> LENGTH(32) \<and> list_all finite_call [Add (Fin 1), Add (Fin 3)] \<and>
   count_st (run True [Add (Fin 1), Add (Fin 3)] :: 32 statistic) = 2 \<and>
   variance True (run True [Add (Fin 1), Add (Fin 3)] :: 32 statistic) \<noteq> NaN \<and>
   pop_stdev True (run True [Add (Fin 1), Add (Fin 3)] :: 32 statistic) \<noteq> NaN \<and>
   unbiased_stdev True (run True [Add (Fin 1), Add (Fin 3)] :: 32 statistic) \<noteq> NaN \<and>
   count_st (run True [] :: 32 statistic) = 0 \<and>
   variance True (run True [] :: 32 statistic) = NaN \<and>
   pop_stdev True (run True [] :: 32 statistic) = NaN \<and>
   unbiased_stdev True (run True [] :: 32 statistic) = NaN"
proof -
  let ?cs = "[Add (Fin 1), Add (Fin 3)]"
  have w: "2 \<le> LENGTH(32)" by simp
  have h: "list_all finite_call ?cs" by simp
  have k: "count_st (run True ?cs :: 32 statistic) = 2"
    by (simp add: count_st_def run_def add_cnt Statistic_fields)
  have k0: "count_st (run True [] :: 32 statistic) = 0"
    by (simp add: count_st_def run_def Statistic_fields)
  note t = nan_iff_undefined [OF w, of True ?cs]
  note t0 = nan_iff_undefined [OF w, of True "[]"]
  from t h k have c: "variance True (run True ?cs :: 32 statistic) \<noteq> NaN \<and>
   pop_stdev True (run True ?cs :: 32 statistic) \<noteq> NaN \<and>
   unbiased_stdev True (run True ?cs :: 32 statistic) \<noteq> NaN" by simp
  from t0 k0 have c0: "variance True (run True [] :: 32 statistic) = NaN \<and>
   pop_stdev True (run True [] :: 32 statistic) = NaN \<and>
   unbiased_stdev True (run True [] :: 32 statistic) = NaN" by simp
  from w h k c k0 c0 show ?thesis by blast
qed

section \<open>The value \<^verbatim>\<open>add\<close> returns\<close>

text \<open>
  Counterexample to C5 as stated. After \<^verbatim>\<open>add(+infinity)\<close> the sum is infinite;
  \<^verbatim>\<open>add(1.0)\<close> then returns infinity minus infinity, which is NaN and not 1.0.
\<close>

theorem add_return_after_infinity:
  "fst (add True (Fin 1) (snd (add True PInf (Statistic True :: 32 statistic)))) = NaN"
  by (simp add: add_ret add_sum Statistic_def fsub_def)

text \<open>
  C5, amended. In every state and for every value, \<^verbatim>\<open>add(value)\<close> returns the new sum
  minus the old sum; when the old sum is finite and the value is not NaN, this is, in
  exact arithmetic, the value itself.
\<close>

theorem add_returns_increment:
  "fst (add u v s) = fsub (m_sum (snd (add u v s))) (m_sum s) \<and>
   (isfinite (m_sum s) \<and> \<not> isnan v \<longrightarrow> fst (add u v s) = v)"
  by (cases "m_sum s"; cases v) (simp_all add: add_ret add_sum fsub_def)

theorem add_returns_increment_witness:
  "isfinite (m_sum (Statistic True :: 32 statistic)) \<and> \<not> isnan (Fin 3) \<and>
   fst (add True (Fin 3) (Statistic True :: 32 statistic)) = Fin 3"
proof -
  have h: "isfinite (m_sum (Statistic True :: 32 statistic)) \<and> \<not> isnan (Fin 3)"
    by (simp add: Statistic_def)
  from add_returns_increment [of True "Fin 3" "Statistic True :: 32 statistic"] h
  have c: "fst (add True (Fin 3) (Statistic True :: 32 statistic)) = Fin 3"
    by blast
  from h c show ?thesis by blast
qed

section \<open>Clearing\<close>

text \<open>
  C6. In every reachable state, \<^verbatim>\<open>clear()\<close> followed by any query (count, sum, minimum,
  maximum, average, variance, pop_stdev, unbiased_stdev) gives what the query gives on a
  freshly default-constructed accumulator.
\<close>

theorem clear_like_fresh:
  "count_st (clear (run u cs :: 'c::len statistic)) = count_st (Statistic u :: 'c statistic) \<and>
   sum_st (clear (run u cs :: 'c statistic)) = sum_st (Statistic u :: 'c statistic) \<and>
   minimum (clear (run u cs :: 'c statistic)) = minimum (Statistic u :: 'c statistic) \<and>
   maximum (clear (run u cs :: 'c statistic)) = maximum (Statistic u :: 'c statistic) \<and>
   average (clear (run u cs :: 'c statistic)) = average (Statistic u :: 'c statistic) \<and>
   variance u (clear (run u cs :: 'c statistic)) = variance u (Statistic u :: 'c statistic) \<and>
   pop_stdev u (clear (run u cs :: 'c statistic)) = pop_stdev u (Statistic u :: 'c statistic) \<and>
   unbiased_stdev u (clear (run u cs :: 'c statistic))
     = unbiased_stdev u (Statistic u :: 'c statistic)"
  by (simp add: clear_run)

section \<open>Minimum and maximum\<close>

text \<open>
  Counterexample to C7 as stated. After \<^verbatim>\<open>add(NaN)\<close> on a fresh accumulator the count
  is 1, the minimum and the maximum are NaN, and \<^verbatim>\<open>min <= max\<close> is false.
\<close>

theorem min_max_nan_first_sample:
  "count_st (snd (add True NaN (Statistic True :: 32 statistic))) = 1 \<and>
   minimum (snd (add True NaN (Statistic True :: 32 statistic))) = NaN \<and>
   maximum (snd (add True NaN (Statistic True :: 32 statistic))) = NaN \<and>
   fle (minimum (snd (add True NaN (Statistic True :: 32 statistic))))
       (maximum (snd (add True NaN (Statistic True :: 32 statistic)))) = False"
  by (simp add: count_st_def minimum_def maximum_def add_cnt add_min add_max Statistic_fields
      fle_def)

text \<open>
  The number of samples matters as well. When the 32-bit count has wrapped around to 0,
  the next sample is taken for a first one: 4294967296 samples 0.0 and then 5.0 leave the
  minimum at 5.0, above the added 0.0; and 5.0 followed by 4294967296 samples 0.0, a
  permutation of them, leaves the maximum at 0.0.
\<close>

theorem min_max_after_wrap:
  "count_st (add_all True (replicate 4294967296 (Fin 0) @ [Fin 5])
      (Statistic True :: 32 statistic)) = 1 \<and>
   minimum (add_all True (replicate 4294967296 (Fin 0) @ [Fin 5])
      (Statistic True :: 32 statistic)) = Fin 5 \<and>
   maximum (add_all True (replicate 4294967296 (Fin 0) @ [Fin 5])
      (Statistic True :: 32 statistic)) = Fin 5 \<and>
   minimum (add_all True (Fin 5 # replicate 4294967296 (Fin 0))
      (Statistic True :: 32 statistic)) = Fin 0 \<and>
   maximum (add_all True (Fin 5 # replicate 4294967296 (Fin 0))
      (Statistic True :: 32 statistic)) = Fin 0"
proof -
  let ?s = "add_all True (replicate 4294967296 (Fin 0)) (Statistic True :: 32 statistic)"
  let ?t = "add_all True (Fin 5 # replicate 4294967295 (Fin 0)) (Statistic True :: 32 statistic)"
  have c: "m_cnt ?s = 0" "m_cnt ?t = 0" by (simp_all add: add_all_init_cnt)
  have "replicate 4294967296 (Fin 0) = replicate (Suc 4294967295) (Fin 0)" by simp
  then have "add_all True (Fin 5 # replicate 4294967296 (Fin 0)) (Statistic True :: 32 statistic)
        = snd (add True (Fin 0) ?t)"
    by (simp only: replicate_snoc append_Cons [symmetric] add_all_snoc)
  then show ?thesis using c
    by (simp add: count_st_def minimum_def maximum_def add_all_snoc add_cnt add_min add_max)
qed

text \<open>
  C7, amended. In every state reached with no NaN among the samples added since
  construction or the last \<^verbatim>\<open>clear()\<close>, and with fewer such samples than the counter type
  has values: if the count is at least 1 then \<^verbatim>\<open>min <= max\<close>, each of the minimum and
  the maximum is one of these samples, and \<^verbatim>\<open>minimum() <= v <= maximum()\<close> for every one
  of these samples \<open>v\<close>.
\<close>

theorem min_max_attained:
  fixes cs :: "call list"
  assumes "NaN \<notin> set (samples cs)"
    and "length (samples cs) < 2 ^ LENGTH('c)"
    and "1 \<le> count_st (run u cs :: 'c::len statistic)"
  shows "fle (minimum (run u cs :: 'c statistic)) (maximum (run u cs :: 'c statistic)) \<and>
         minimum (run u cs :: 'c statistic) \<in> set (samples cs) \<and>
         maximum (run u cs :: 'c statistic) \<in> set (samples cs) \<and>
         (\<forall>v \<in> set (samples cs). fle (minimum (run u cs :: 'c statistic)) v \<and>
                                   fle v (maximum (run u cs :: 'c statistic)))"
proof -
  have ne: "samples cs \<noteq> []"
  proof
    assume "samples cs = []"
    then have "m_cnt (run u cs :: 'c statistic) = 0"
      by (simp add: run_samples [of u cs] add_all_Nil Statistic_fields)
    then show False using assms(3) by (simp add: count_st_def)
  qed
  have le: "length (samples cs) \<le> 2 ^ LENGTH('c)" using assms(2) by simp
  note a = min_max_attained_aux [OF ne assms(1) le, of u]
  then show ?thesis
    unfolding minimum_def maximum_def run_samples [of u cs] by blast
qed

theorem min_max_attained_witness:
  "NaN \<notin> set (samples [Add (Fin 3), Clear, Add (Fin 2), Add (Fin 7), Add (Fin 5)]) \<and>
   length (samples [Add (Fin 3), Clear, Add (Fin 2), Add (Fin 7), Add (Fin 5)])
     < 2 ^ LENGTH(32) \<and>
   1 \<le> count_st
     (run True [Add (Fin 3), Clear, Add (Fin 2), Add (Fin 7), Add (Fin 5)] :: 32 statistic) \<and>
   fle (minimum
         (run True [Add (Fin 3), Clear, Add (Fin 2), Add (Fin 7), Add (Fin 5)] :: 32 statistic))
       (maximum
         (run True [Add (Fin 3), Clear, Add (Fin 2), Add (Fin 7), Add (Fin 5)] :: 32 statistic)) \<and>
   minimum (run True [Add (Fin 3), Clear, Add (Fin 2), Add (Fin 7), Add (Fin 5)] :: 32 statistic)
     \<in> set (samples [Add (Fin 3), Clear, Add (Fin 2), Add (Fin 7), Add (Fin 5)]) \<and>
   maximum (run True [Add (Fin 3), Clear, Add (Fin 2), Add (Fin 7), Add (Fin 5)] :: 32 statistic)
     \<in> set (samples [Add (Fin 3), Clear, Add (Fin 2), Add (Fin 7), Add (Fin 5)]) \<and>
   samples [Add (Fin 3), Clear, Add (Fin 2), Add (Fin 7), Add (Fin 5)] = [Fin 2, Fin 7, Fin 5]"
proof -
  let ?cs = "[Add (Fin 3), Clear, Add (Fin 2), Add (Fin 7), Add (Fin 5)]"
  have s: "samples ?cs = [Fin 2, Fin 7, Fin 5]" by (simp add: samples_def)
  have h1: "NaN \<notin> set (samples ?cs)" by (simp add: s)
  have h2: "length (samples ?cs) < 2 ^ LENGTH(32)" by (simp add: s)
  have h3: "1 \<le> count_st (run True ?cs :: 32 statistic)"
    by (simp add: count_st_def run_samples s add_all_init_cnt)
  note c = min_max_attained [OF h1 h2 h3]
  from c have c1: "fle (minimum (run True ?cs :: 32 statistic))
                       (maximum (run True ?cs :: 32 statistic))"
    by (rule conjunct1)
  from c have c2: "minimum (run True ?cs :: 32 statistic) \<in> set (samples ?cs)"
    by blast
  from c have c3: "maximum (run True ?cs :: 32 statistic) \<in> set (samples ?cs)"
    by blast
  show ?thesis by (intro conjI h1 h2 h3 c1 c2 c3 s)
qed

section \<open>Permutations of the samples\<close>

lemma foldl_fadd_mset: "mset xs = mset ys \<Longrightarrow> foldl fadd a xs = foldl fadd a ys"
  unfolding foldl_conv_fold
  by (rule fold_multiset_equiv [THEN fun_cong]) (auto simp add: fun_eq_iff fadd_right_commute)

text \<open>
  Counterexample to C8 as stated. The samples 1.0 and NaN: added as 1.0, NaN the minimum
  and the maximum are 1.0; added as NaN, 1.0 they are NaN.
\<close>

theorem permutation_with_nan:
  "mset [Fin 1, NaN] = mset [NaN, Fin 1] \<and>
   minimum (add_all True [Fin 1, NaN] (Statistic True :: 32 statistic)) = Fin 1 \<and>
   minimum (add_all True [NaN, Fin 1] (Statistic True :: 32 statistic)) = NaN \<and>
   maximum (add_all True [Fin 1, NaN] (Statistic True :: 32 statistic)) = Fin 1 \<and>
   maximum (add_all True [NaN, Fin 1] (Statistic True :: 32 statistic)) = NaN"
  by (simp add: minimum_def maximum_def add_all_Cons add_all_Nil add_min add_max add_cnt
      Statistic_fields add_mset_commute)

text \<open>
  C8, amended. For every two permutations of a multiset of samples, adding each to a
  fresh accumulator gives the same count and, in exact arithmetic, the same sum; when no
  sample is NaN and there are at most as many samples as the counter type has values,
  it gives the same minimum and the same maximum too.
\<close>

theorem permutation_invariance:
  fixes xs ys :: "value_type list"
  assumes p: "mset xs = mset ys"
  shows "count_st (add_all u xs (Statistic u :: 'c::len statistic))
           = count_st (add_all u ys (Statistic u :: 'c statistic)) \<and>
         sum_st (add_all u xs (Statistic u :: 'c statistic))
           = sum_st (add_all u ys (Statistic u :: 'c statistic)) \<and>
         (NaN \<notin> set xs \<and> length xs \<le> 2 ^ LENGTH('c) \<longrightarrow>
            minimum (add_all u xs (Statistic u :: 'c statistic))
              = minimum (add_all u ys (Statistic u :: 'c statistic)) \<and>
            maximum (add_all u xs (Statistic u :: 'c statistic))
              = maximum (add_all u ys (Statistic u :: 'c statistic)))"
proof -
  let ?s = "add_all u xs (Statistic u :: 'c statistic)"
  let ?t = "add_all u ys (Statistic u :: 'c statistic)"
  have l: "length xs = length ys" using p by (rule mset_eq_length)
  have st: "set xs = set ys" using p by (rule mset_eq_setD)
  have c: "m_cnt ?s = m_cnt ?t" by (simp add: add_all_init_cnt l)
  have sm: "m_sum ?s = m_sum ?t" by (simp add: add_all_sum foldl_fadd_mset [OF p])
  have mm: "m_min ?s = m_min ?t \<and> m_max ?s = m_max ?t"
    if nn: "NaN \<notin> set xs" and len: "length xs \<le> 2 ^ LENGTH('c)"
  proof (cases "xs = []")
    case True
    then have "ys = []" using l by simp
    then show ?thesis using True by simp
  next
    case False
    then have ny: "ys \<noteq> []" using l by auto
    note a = min_max_attained_aux [OF False nn len, of u]
    have "NaN \<notin> set ys" "length ys \<le> 2 ^ LENGTH('c)" using nn len st l by simp_all
    note b = min_max_attained_aux [OF ny this, of u]
    have "fle (m_min ?s) (m_min ?t)" "fle (m_min ?t) (m_min ?s)"
      "fle (m_max ?s) (m_max ?t)" "fle (m_max ?t) (m_max ?s)"
      using a b st by blast+
    then show ?thesis by (blast intro: fle_antisym)
  qed
  from c sm mm show ?thesis by (simp add: count_st_def minimum_def maximum_def sum_st_def)
qed

theorem permutation_invariance_witness:
  "mset [Fin 3, Fin 1, Fin 2] = mset [Fin 1, Fin 2, Fin 3] \<and>
   NaN \<notin> set [Fin 3, Fin 1, Fin 2] \<and>
   length [Fin 3, Fin 1, Fin 2] \<le> 2 ^ LENGTH(32) \<and>
   count_st (add_all True [Fin 3, Fin 1, Fin 2] (Statistic True :: 32 statistic))
     = count_st (add_all True [Fin 1, Fin 2, Fin 3] (Statistic True :: 32 statistic)) \<and>
   sum_st (add_all True [Fin 3, Fin 1, Fin 2] (Statistic True :: 32 statistic))
     = sum_st (add_all True [Fin 1, Fin 2, Fin 3] (Statistic True :: 32 statistic)) \<and>
   minimum (add_all True [Fin 3, Fin 1, Fin 2] (Statistic True :: 32 statistic))
     = minimum (add_all True [Fin 1, Fin 2, Fin 3] (Statistic True :: 32 statistic)) \<and>
   maximum (add_all True [Fin 3, Fin 1, Fin 2] (Statistic True :: 32 statistic))
     = maximum (add_all True [Fin 1, Fin 2, Fin 3] (Statistic True :: 32 statistic))"
proof -
  have h1: "mset [Fin 3, Fin 1, Fin 2] = mset [Fin 1, Fin 2, Fin 3]"
    by (simp add: add_mset_commute)
  have h2: "NaN \<notin> set [Fin 3, Fin 1, Fin 2]" by simp
  have h3: "length [Fin 3, Fin 1, Fin 2] \<le> 2 ^ LENGTH(32)" by simp
  note c = permutation_invariance [OF h1, of True, where 'c=32]
  from c have c1: "count_st (add_all True [Fin 3, Fin 1, Fin 2] (Statistic True :: 32 statistic))
     = count_st (add_all True [Fin 1, Fin 2, Fin 3] (Statistic True :: 32 statistic))"
    by (rule conjunct1)
  from c have c2: "sum_st (add_all True [Fin 3, Fin 1, Fin 2] (Statistic True :: 32 statistic))
     = sum_st (add_all True [Fin 1, Fin 2, Fin 3] (Statistic True :: 32 statistic))"
    by blast
  from c h2 h3 have c3:
    "minimum (add_all True [Fin 3, Fin 1, Fin 2] (Statistic True :: 32 statistic))
     = minimum (add_all True [Fin 1, Fin 2, Fin 3] (Statistic True :: 32 statistic))"
    by blast
  from c h2 h3 have c4:
    "maximum (add_all True [Fin 3, Fin 1, Fin 2] (Statistic True :: 32 statistic))
     = maximum (add_all True [Fin 1, Fin 2, Fin 3] (Statistic True :: 32 statistic))"
    by blast
  show ?thesis by (intro conjI h1 h2 h3 c1 c2 c3 c4)
qed

section \<open>Variance tracking disabled\<close>

lemma run_core_flag:
  "m_cnt (run True cs :: 'c::len statistic) = m_cnt (run False cs :: 'c statistic) \<and>
   m_sum (run True cs :: 'c statistic) = m_sum (run False cs :: 'c statistic) \<and>
   m_min (run True cs :: 'c statistic) = m_min (run False cs :: 'c statistic) \<and>
   m_max (run True cs :: 'c statistic) = m_max (run False cs :: 'c statistic)"
proof (induction cs rule: rev_induct)
  case Nil
  show ?case by (simp add: run_Nil Statistic_def)
next
  case (snoc c cs)
  then show ?case
    by (cases c) (simp_all add: run_snoc add_cnt add_sum add_min add_max clear_def)
qed

text \<open>
  C9. With variance tracking disabled, \<^verbatim>\<open>variance()\<close>, \<^verbatim>\<open>pop_stdev()\<close> and
  \<^verbatim>\<open>unbiased_stdev()\<close> return NaN after any sequence of calls, and \<^verbatim>\<open>count()\<close>,
  \<^verbatim>\<open>sum()\<close>, \<^verbatim>\<open>minimum()\<close>, \<^verbatim>\<open>maximum()\<close> and \<^verbatim>\<open>average()\<close> return what the
  enabled instantiation returns after the same sequence of calls.
\<close>

theorem disabled_same_core:
  "variance False (run False cs :: 'c::len statistic) = NaN \<and>
   pop_stdev False (run False cs :: 'c statistic) = NaN \<and>
   unbiased_stdev False (run False cs :: 'c statistic) = NaN \<and>
   count_st (run False cs :: 'c statistic) = count_st (run True cs :: 'c statistic) \<and>
   sum_st (run False cs :: 'c statistic) = sum_st (run True cs :: 'c statistic) \<and>
   minimum (run False cs :: 'c statistic) = minimum (run True cs :: 'c statistic) \<and>
   maximum (run False cs :: 'c statistic) = maximum (run True cs :: 'c statistic) \<and>
   average (run False cs :: 'c statistic) = average (run True cs :: 'c statistic)"
  using run_core_flag [of cs, where 'c='c]
  by (simp add: variance_def pop_stdev_def unbiased_stdev_def count_st_def sum_st_def
      minimum_def maximum_def average_def)

section \<open>NaN samples and the minimum and maximum\<close>

lemma nan_sample_frame:
  fixes s :: "'c::len statistic"
  assumes "m_cnt s \<noteq> 0"
  shows "m_min (snd (add u NaN s)) = m_min s \<and> m_max (snd (add u NaN s)) = m_max s"
  using assms by (simp add: add_min add_max flt_NaN_right)

lemma nan_only_first:
  fixes s :: "'c::len statistic"
  shows "m_min s \<noteq> NaN \<Longrightarrow> m_min (snd (add u v s)) = NaN \<Longrightarrow> m_cnt s = 0 \<and> v = NaN"
    and "m_max s \<noteq> NaN \<Longrightarrow> m_max (snd (add u v s)) = NaN \<Longrightarrow> m_cnt s = 0 \<and> v = NaN"
  by (auto simp add: add_min add_max flt_NaN_right split: if_splits)

lemma nan_kept:
  fixes s :: "'c::len statistic"
  assumes "m_cnt s \<noteq> 0"
  shows "m_min s = NaN \<Longrightarrow> m_min (snd (add u v s)) = NaN"
    and "m_max s = NaN \<Longrightarrow> m_max (snd (add u v s)) = NaN"
  using assms by (simp_all add: add_min add_max flt_NaN_right)

lemma nan_first_kept:
  "length xs < 2 ^ LENGTH('c) \<Longrightarrow>
   m_min (add_all u (NaN # xs) (Statistic u :: 'c::len statistic)) = NaN \<and>
   m_max (add_all u (NaN # xs) (Statistic u :: 'c statistic)) = NaN"
proof (induction xs rule: rev_induct)
  case Nil
  show ?case by (simp add: add_all_Cons add_all_Nil add_min add_max Statistic_fields)
next
  case (snoc x xs)
  let ?s = "add_all u (NaN # xs) (Statistic u :: 'c statistic)"
  have ih: "m_min ?s = NaN" "m_max ?s = NaN" using snoc by simp_all
  have "m_cnt ?s = of_nat (Suc (length xs))" by (simp add: add_all_init_cnt)
  then have nz: "m_cnt ?s \<noteq> 0"
    using of_nat_neq_0 [of "Suc (length xs)", where 'a='c] snoc.prems by simp
  have "add_all u (NaN # xs @ [x]) (Statistic u :: 'c statistic) = snd (add u x ?s)"
    by (simp only: append_Cons [symmetric] add_all_snoc)
  then show ?case using nan_kept [OF nz] ih by simp
qed

text \<open>
  Counterexample to C10 as stated. NaN added as the very first sample makes the minimum
  and the maximum NaN, but they do not remain NaN for all subsequent adds: after
  4294967296 further calls \<^verbatim>\<open>add(5.0)\<close> the 32-bit count has wrapped around to 0 in
  between, and the minimum and the maximum are 5.0.
\<close>

theorem nan_lost_after_wrap:
  "minimum (add_all True (NaN # replicate 4294967296 (Fin 5))
      (Statistic True :: 32 statistic)) = Fin 5 \<and>
   maximum (add_all True (NaN # replicate 4294967296 (Fin 5))
      (Statistic True :: 32 statistic)) = Fin 5"
proof -
  let ?s = "add_all True (NaN # replicate 4294967295 (Fin 5)) (Statistic True :: 32 statistic)"
  have c: "m_cnt ?s = 0" by (simp add: add_all_init_cnt)
  have "replicate 4294967296 (Fin 5) = replicate (Suc 4294967295) (Fin 5)" by simp
  then have "add_all True (NaN # replicate 4294967296 (Fin 5)) (Statistic True :: 32 statistic)
        = snd (add True (Fin 5) ?s)"
    by (simp only: replicate_snoc append_Cons [symmetric] add_all_snoc)
  then show ?thesis using c by (simp add: minimum_def maximum_def add_min add_max)
qed

text \<open>
  C10, amended. When the count is at least 1, \<^verbatim>\<open>add(NaN)\<close> leaves the minimum and the
  maximum unchanged. A call of \<^verbatim>\<open>add\<close> turns a minimum or maximum that is not NaN into
  NaN only when the count is 0 and the value is NaN, and \<^verbatim>\<open>add(NaN)\<close> at count 0 makes
  both NaN. A minimum or maximum that is NaN remains NaN through every \<^verbatim>\<open>add\<close> made
  while the count is at least 1; so after NaN as the very first sample both remain NaN
  for any further samples, fewer than the counter type has values.
\<close>

theorem nan_sample_frame_effect:
  fixes s :: "'c::len statistic" and xs :: "value_type list"
  shows
  "(1 \<le> count_st s \<longrightarrow>
      minimum (snd (add u NaN s)) = minimum s \<and> maximum (snd (add u NaN s)) = maximum s) \<and>
   (\<not> isnan (minimum s) \<and> isnan (minimum (snd (add u v s))) \<longrightarrow> count_st s = 0 \<and> isnan v) \<and>
   (\<not> isnan (maximum s) \<and> isnan (maximum (snd (add u v s))) \<longrightarrow> count_st s = 0 \<and> isnan v) \<and>
   (count_st s = 0 \<longrightarrow>
      minimum (snd (add u NaN s)) = NaN \<and> maximum (snd (add u NaN s)) = NaN) \<and>
   (1 \<le> count_st s \<and> isnan (minimum s) \<longrightarrow> isnan (minimum (snd (add u v s)))) \<and>
   (1 \<le> count_st s \<and> isnan (maximum s) \<longrightarrow> isnan (maximum (snd (add u v s)))) \<and>
   (length xs < 2 ^ LENGTH('c) \<longrightarrow>
      minimum (add_all u (NaN # xs) (Statistic u :: 'c statistic)) = NaN \<and>
      maximum (add_all u (NaN # xs) (Statistic u :: 'c statistic)) = NaN)"
proof -
  have a: "1 \<le> count_st s \<longrightarrow>
      minimum (snd (add u NaN s)) = minimum s \<and> maximum (snd (add u NaN s)) = maximum s"
    using nan_sample_frame [of s u] by (simp add: count_st_def minimum_def maximum_def one_le_word)
  have b: "\<not> isnan (minimum s) \<and> isnan (minimum (snd (add u v s)))
             \<longrightarrow> count_st s = 0 \<and> isnan v"
    using nan_only_first(1) [of s u v] by (simp add: count_st_def minimum_def isnan_iff)
  have c: "\<not> isnan (maximum s) \<and> isnan (maximum (snd (add u v s)))
             \<longrightarrow> count_st s = 0 \<and> isnan v"
    using nan_only_first(2) [of s u v] by (simp add: count_st_def maximum_def isnan_iff)
  have d: "count_st s = 0 \<longrightarrow>
      minimum (snd (add u NaN s)) = NaN \<and> maximum (snd (add u NaN s)) = NaN"
    by (simp add: count_st_def minimum_def maximum_def add_min add_max)
  have e: "1 \<le> count_st s \<and> isnan (minimum s) \<longrightarrow> isnan (minimum (snd (add u v s)))"
    using nan_kept(1) [of s u v] by (simp add: count_st_def minimum_def isnan_iff one_le_word)
  have f: "1 \<le> count_st s \<and> isnan (maximum s) \<longrightarrow> isnan (maximum (snd (add u v s)))"
    using nan_kept(2) [of s u v] by (simp add: count_st_def maximum_def isnan_iff one_le_word)
  have g: "length xs < 2 ^ LENGTH('c) \<longrightarrow>
      minimum (add_all u (NaN # xs) (Statistic u :: 'c statistic)) = NaN \<and>
      maximum (add_all u (NaN # xs) (Statistic u :: 'c statistic)) = NaN"
    using nan_first_kept [of xs u, where 'c='c] by (simp add: minimum_def maximum_def)
  from a b c d e f g show ?thesis by blast
qed

theorem nan_sample_frame_effect_witness:
  "1 \<le> count_st (snd (add True (Fin 1) (Statistic True :: 32 statistic))) \<and>
   minimum (snd (add True NaN (snd (add True (Fin 1) (Statistic True :: 32 statistic)))))
     = Fin 1 \<and>
   maximum (snd (add True NaN (snd (add True (Fin 1) (Statistic True :: 32 statistic)))))
     = Fin 1 \<and>
   count_st (Statistic True :: 32 statistic) = 0 \<and>
   \<not> isnan (minimum (Statistic True :: 32 statistic)) \<and>
   \<not> isnan (maximum (Statistic True :: 32 statistic)) \<and>
   minimum (snd (add True NaN (Statistic True :: 32 statistic))) = NaN \<and>
   maximum (snd (add True NaN (Statistic True :: 32 statistic))) = NaN \<and>
   1 \<le> count_st (snd (add True NaN (Statistic True :: 32 statistic))) \<and>
   isnan (minimum (snd (add True (Fin 2) (snd (add True NaN (Statistic True :: 32 statistic)))))) \<and>
   isnan (maximum (snd (add True (Fin 2) (snd (add True NaN (Statistic True :: 32 statistic)))))) \<and>
   length [Fin 1, Fin 2] < 2 ^ LENGTH(32) \<and>
   minimum (add_all True [NaN, Fin 1, Fin 2] (Statistic True :: 32 statistic)) = NaN \<and>
   maximum (add_all True [NaN, Fin 1, Fin 2] (Statistic True :: 32 statistic)) = NaN"
proof -
  let ?i = "Statistic True :: 32 statistic"
  let ?s1 = "snd (add True (Fin 1) ?i)"
  let ?sn = "snd (add True NaN ?i)"
  have h1: "1 \<le> count_st ?s1" by (simp add: count_st_def add_cnt Statistic_fields)
  have m1: "minimum ?s1 = Fin 1" "maximum ?s1 = Fin 1"
    by (simp_all add: minimum_def maximum_def add_min add_max Statistic_fields)
  from nan_sample_frame_effect [of ?s1 True "Fin 0" "[]"] h1
  have c1: "minimum (snd (add True NaN ?s1)) = Fin 1 \<and> maximum (snd (add True NaN ?s1)) = Fin 1"
    by (simp add: m1)
  have h0: "count_st ?i = 0" by (simp add: count_st_def Statistic_fields)
  have n0: "\<not> isnan (minimum ?i) \<and> \<not> isnan (maximum ?i)"
    by (simp add: minimum_def maximum_def Statistic_fields)
  from nan_sample_frame_effect [of ?i True "Fin 0" "[]"] h0
  have c0: "minimum ?sn = NaN \<and> maximum ?sn = NaN" by blast
  have hn: "1 \<le> count_st ?sn" by (simp add: count_st_def add_cnt Statistic_fields)
  from c0 have nn: "isnan (minimum ?sn)" "isnan (maximum ?sn)" by simp_all
  from nan_sample_frame_effect [of ?sn True "Fin 2" "[]"] hn nn
  have c2: "isnan (minimum (snd (add True (Fin 2) ?sn))) \<and>
            isnan (maximum (snd (add True (Fin 2) ?sn)))"
    by blast
  have hl: "length [Fin 1, Fin 2] < 2 ^ LENGTH(32)" by simp
  from nan_sample_frame_effect [of ?i True "Fin 0" "[Fin 1, Fin 2]"] hl
  have c3: "minimum (add_all True [NaN, Fin 1, Fin 2] ?i) = NaN \<and>
            maximum (add_all True [NaN, Fin 1, Fin 2] ?i) = NaN" by blast
  from h1 c1 h0 n0 c0 hn c2 hl c3 show ?thesis by blast
qed

end
